theory Spec2Isabelle
  imports Main "HOL-Library.Word" "HOL-Library.Sublist"
begin

unbundle bit_operations_syntax

section \<open>Go values used by package pllb\<close>

text \<open>
  A Go \<open>string\<close> is a sequence of bytes; it is modelled as \<open>string\<close>, whose characters
  are bytes. \<open>byte\<close>, \<open>uint32\<close> and \<open>uint64\<close> are words of their width. A run-time panic is
  a value: every function that can panic returns \<open>panic + 'a\<close>.
\<close>

type_synonym byte = "8 word"
type_synonym uint32 = "32 word"
type_synonym uint64 = "64 word"

datatype panic = SliceBoundsOutOfRange int

text \<open>The slice expression \<open>s[:hi]\<close> on a string: Go panics unless \<open>0 \<le> hi \<le> len(s)\<close>.\<close>

definition slice_to :: "string \<Rightarrow> int \<Rightarrow> panic + string" where
  "slice_to s hi =
     (if hi < 0 \<or> int (length s) < hi then Inl (SliceBoundsOutOfRange hi)
      else Inr (take (nat hi) s))"

text \<open>The conversion \<open>[]byte(s)\<close>.\<close>

definition bytes :: "string \<Rightarrow> byte list" where
  "bytes s = map of_char s"

text \<open>\<open>make([]byte, n)\<close>.\<close>

definition make_bytes :: "nat \<Rightarrow> byte list" where
  "make_bytes n = replicate n 0"

section \<open>path/filepath.Base (non-Windows build)\<close>

text \<open>
  \<open>fixIncl\<close> calls the standard library's \<open>filepath.Base\<close>. Its Unix implementation is
  embedded here loop by loop: an empty path gives \<open>"."\<close>; trailing separators are
  stripped; the volume name (always empty on Unix) is dropped; the text after the last
  separator is kept; a path of separators only gives \<open>"/"\<close>.
\<close>

definition IsPathSeparator :: "char \<Rightarrow> bool" where
  "IsPathSeparator c \<longleftrightarrow> c = CHR ''/''"

definition VolumeName :: "string \<Rightarrow> string" where
  "VolumeName path = []"

function stripTrailingSeparators :: "string \<Rightarrow> string" where
  "stripTrailingSeparators path =
     (if 0 < length path \<and> IsPathSeparator (path ! (length path - 1))
      then stripTrailingSeparators (take (length path - 1) path)
      else path)"
  by pat_completeness auto
termination
  by (relation "measure length") auto

declare stripTrailingSeparators.simps [simp del]

function lastSeparator :: "string \<Rightarrow> int \<Rightarrow> int" where
  "lastSeparator path i =
     (if 0 \<le> i \<and> \<not> IsPathSeparator (path ! nat i)
      then lastSeparator path (i - 1)
      else i)"
  by pat_completeness auto
termination
  by (relation "measure (\<lambda>(path, i). nat (i + 1))") auto

declare lastSeparator.simps [simp del]

definition Base :: "string \<Rightarrow> string" where
  "Base path =
     (if path = [] then ''.''
      else
        let path = stripTrailingSeparators path;
            path = drop (length (VolumeName path)) path;
            i = lastSeparator path (int (length path) - 1);
            path = (if 0 \<le> i then drop (nat (i + 1)) path else path)
        in if path = [] then ''/'' else path)"

section \<open>fixIncl\<close>

text \<open>
  The loop of \<open>fixIncl\<close> over the include patterns, with \<open>incl2\<close> as accumulator. The
  slice \<open>inc[:len(inc)-1]\<close> is the one place that can panic; a panic ends the loop.
\<close>

fun fixIncl_loop :: "string list \<Rightarrow> string list \<Rightarrow> panic + string list" where
  "fixIncl_loop [] incl2 = Inr incl2"
| "fixIncl_loop (inc # incl) incl2 =
     (if inc = ''.'' then fixIncl_loop incl (incl2 @ [''./*''])
      else if Base inc = ''.'' then
        (case slice_to inc (int (length inc) - 1) of
           Inl p \<Rightarrow> Inl p
         | Inr pre \<Rightarrow> fixIncl_loop incl (incl2 @ [pre @ ''*'']))
      else fixIncl_loop incl (incl2 @ [inc]))"

definition fixIncl :: "string list \<Rightarrow> panic + string list" where
  "fixIncl incl = fixIncl_loop incl []"

section \<open>crypto/sha1, encoding/hex, encoding/binary\<close>

text \<open>
  The standard library's SHA-1 (FIPS 180-4). A 32-bit value is an \<open>int\<close> in
  \<open>[0, 2^32)\<close> with the wrap-around written out. The message schedule is kept as the
  window of the next 16 words, as the library's 16-word buffer does.
\<close>

definition add32 :: "int \<Rightarrow> int \<Rightarrow> int" where
  "add32 x y = (x + y) mod 4294967296"

definition rotl32 :: "nat \<Rightarrow> int \<Rightarrow> int" where
  "rotl32 n x = (x * 2 ^ n) mod 4294967296 + x div 2 ^ (32 - n)"

definition not32 :: "int \<Rightarrow> int" where
  "not32 x = 4294967295 - x"

definition be32 :: "byte list \<Rightarrow> int" where
  "be32 bs = foldl (\<lambda>acc b. acc * 256 + uint b) 0 bs"

definition BigEndian_PutUint64 :: "int \<Rightarrow> byte list" where
  "BigEndian_PutUint64 v = map (\<lambda>i. of_int (v div 256 ^ i mod 256)) [7, 6, 5, 4, 3, 2, 1, 0]"

definition BigEndian_PutUint32 :: "int \<Rightarrow> byte list" where
  "BigEndian_PutUint32 v = map (\<lambda>i. of_int (v div 256 ^ i mod 256)) [3, 2, 1, 0]"

definition sha1_pad :: "byte list \<Rightarrow> byte list" where
  "sha1_pad msg =
     msg @ [0x80] @ replicate ((119 - length msg mod 64) mod 64) 0
       @ BigEndian_PutUint64 ((8 * int (length msg)) mod 2 ^ 64)"

function sha1_chunks :: "byte list \<Rightarrow> byte list list" where
  "sha1_chunks bs = (if bs = [] then [] else take 64 bs # sha1_chunks (drop 64 bs))"
  by pat_completeness auto
termination
  by (relation "measure length") auto

declare sha1_chunks.simps [simp del]

definition sha1_words :: "byte list \<Rightarrow> int list" where
  "sha1_words p = map (\<lambda>t. be32 (take 4 (drop (4 * t) p))) [0..<16]"

type_synonym sha1_state = "int \<times> int \<times> int \<times> int \<times> int"

definition sha1_f :: "nat \<Rightarrow> int \<Rightarrow> int \<Rightarrow> int \<Rightarrow> int" where
  "sha1_f t b c d =
     (if t < 20 then (b AND c) OR (not32 b AND d)
      else if t < 40 then b XOR c XOR d
      else if t < 60 then ((b OR c) AND d) OR (b AND c)
      else b XOR c XOR d)"

definition sha1_K :: "nat \<Rightarrow> int" where
  "sha1_K t =
     (if t < 20 then 0x5A827999
      else if t < 40 then 0x6ED9EBA1
      else if t < 60 then 0x8F1BBCDC
      else 0xCA62C1D6)"

fun sha1_round :: "sha1_state \<times> int list \<Rightarrow> nat \<Rightarrow> sha1_state \<times> int list" where
  "sha1_round ((a, b, c, d, e), w) t =
     ((add32 (add32 (add32 (add32 (rotl32 5 a) (sha1_f t b c d)) e) (w ! 0)) (sha1_K t),
       a, rotl32 30 b, c, d),
      tl w @ [rotl32 1 (w ! 13 XOR w ! 8 XOR w ! 2 XOR w ! 0)])"

definition sha1_block :: "sha1_state \<Rightarrow> byte list \<Rightarrow> sha1_state" where
  "sha1_block h p = (case h of (h0, h1, h2, h3, h4) \<Rightarrow>
     (case fst (foldl sha1_round (h, sha1_words p) [0..<80]) of (a, b, c, d, e) \<Rightarrow>
        (add32 h0 a, add32 h1 b, add32 h2 c, add32 h3 d, add32 h4 e)))"

definition sha1_init :: sha1_state where
  "sha1_init = (0x67452301, 0xEFCDAB89, 0x98BADCFE, 0x10325476, 0xC3D2E1F0)"

definition sha1_digest :: "byte list \<Rightarrow> byte list" where
  "sha1_digest msg =
     (case foldl sha1_block sha1_init (sha1_chunks (sha1_pad msg)) of
        (h0, h1, h2, h3, h4) \<Rightarrow> concat (map BigEndian_PutUint32 [h0, h1, h2, h3, h4]))"

text \<open>
  The hash object returned by \<open>sha1.New()\<close> is modelled by the bytes written to it so
  far: \<open>Write\<close> appends, and \<open>Sum(b)\<close> appends the digest of everything written to \<open>b\<close>.
\<close>

type_synonym hash = "byte list"

definition sha1_New :: hash where
  "sha1_New = []"

definition hash_Write :: "hash \<Rightarrow> byte list \<Rightarrow> hash" where
  "hash_Write h p = h @ p"

definition hash_Sum :: "hash \<Rightarrow> byte list \<Rightarrow> byte list" where
  "hash_Sum h b = b @ sha1_digest h"

text \<open>\<open>hex.EncodeToString\<close>: two lower-case hexadecimal digits per byte.\<close>

definition hexdigit :: "byte \<Rightarrow> char" where
  "hexdigit n = ''0123456789abcdef'' ! unat n"

definition EncodeToString :: "byte list \<Rightarrow> string" where
  "EncodeToString src = concat (map (\<lambda>v. [hexdigit (drop_bit 4 v), hexdigit (v AND 0x0f)]) src)"

text \<open>
  \<open>binary.LittleEndian.PutUint64(b, v)\<close> overwrites \<open>b[0..7]\<close> with the bytes of \<open>v\<close>,
  least significant first, and leaves the rest of \<open>b\<close>. Its bounds check needs
  \<open>len(b) \<ge> 8\<close>; the only buffer passed to it is \<open>make([]byte, 8)\<close>.
\<close>

definition LittleEndian_PutUint64 :: "byte list \<Rightarrow> uint64 \<Rightarrow> byte list" where
  "LittleEndian_PutUint64 b v =
     map (\<lambda>i. ucast (drop_bit (8 * i) v)) [0, 1, 2, 3, 4, 5, 6, 7] @ drop 8 b"

section \<open>The best-effort identity probe\<close>

text \<open>
  The file system is a parameter: \<open>syscall.Stat\<close> maps a path to an error or to the
  stat structure, of which only \<open>Ino\<close> is read (inode_other.go). On Windows
  (inode_windows.go) \<open>os.Open\<close> gives an error or a handle, and
  \<open>GetFileInformationByHandle\<close> an error or the file index in two 32-bit halves.
\<close>

datatype Errno = Errno nat

record Stat_t =
  Ino :: uint64

definition getInodeBestEffort :: "(string \<Rightarrow> Errno + Stat_t) \<Rightarrow> string \<Rightarrow> uint64" where
  "getInodeBestEffort Stat path =
     (let inode = 0
      in case Stat path of
           Inr stat \<Rightarrow> Ino stat
         | Inl err \<Rightarrow> inode)"

record ByHandleFileInformation =
  FileIndexHigh :: uint32
  FileIndexLow :: uint32

definition getInodeBestEffort_windows ::
  "(string \<Rightarrow> Errno + nat) \<Rightarrow> (nat \<Rightarrow> Errno + ByHandleFileInformation) \<Rightarrow> string \<Rightarrow> uint64" where
  "getInodeBestEffort_windows Open GetFileInformationByHandle path =
     (case Open path of
        Inl err \<Rightarrow> 0
      | Inr f \<Rightarrow>
          (case GetFileInformationByHandle f of
             Inl err \<Rightarrow> 0
           | Inr info \<Rightarrow>
               (let inode = ucast (FileIndexHigh info);
                    inode = push_bit 32 inode;
                    inode = inode + ucast (FileIndexLow info)
                in inode)))"

section \<open>getSharedKeyHintFromInclude\<close>

text \<open>
  The closure \<open>addToHash\<close> updates the hash \<open>h\<close> and the 8-byte buffer \<open>b\<close>; both are
  passed and returned. The probe is the platform's \<open>getInodeBestEffort\<close> on the file
  system of the moment. \<open>hashState\<close> is the pair after line 160, before \<open>h.Sum(nil)\<close>.
\<close>

definition addToHash :: "(string \<Rightarrow> uint64) \<Rightarrow> hash \<times> byte list \<Rightarrow> string \<Rightarrow> hash \<times> byte list" where
  "addToHash probe hb path =
     (case hb of (h, b) \<Rightarrow>
        let h = hash_Write h (bytes path);
            inode = probe path;
            b = LittleEndian_PutUint64 b inode;
            h = hash_Write h b
        in (h, b))"

definition hashState :: "(string \<Rightarrow> uint64) \<Rightarrow> string \<Rightarrow> string list \<Rightarrow> hash \<times> byte list" where
  "hashState probe name incl =
     foldl (addToHash probe) (addToHash probe (sha1_New, make_bytes 8) name) incl"

definition getSharedKeyHintFromInclude :: "(string \<Rightarrow> uint64) \<Rightarrow> string \<Rightarrow> string list \<Rightarrow> string" where
  "getSharedKeyHintFromInclude probe name incl =
     EncodeToString (hash_Sum (fst (hashState probe name incl)) [])"

section \<open>State and WithInclude\<close>

text \<open>
  The nodes of the external llb library are represented by the calls that build them.
  \<open>State\<close> is the wrapper struct of the package; \<open>withincludCache\<close> is a map from key to
  \<open>State\<close>, passed to \<open>WithInclude\<close> and returned by it. The lock and the diagnostic
  output of \<open>WithInclude\<close> are outside this sequential model.
\<close>

datatype LocalOption =
    SessionID string
  | IncludePatterns "string list"
  | FollowPaths "string list"
  | ExcludePatterns "string list"
  | SharedKeyHint string

typedecl ImageOption
typedecl GitOption

datatype llb_State =
    llb_Scratch
  | llb_Local string "LocalOption list"
  | llb_Image string "ImageOption list"
  | llb_Git string string "GitOption list"

record State =
  st :: llb_State
  localName :: string
  localOpts :: "LocalOption list"

definition FromRawState :: "llb_State \<Rightarrow> State" where
  "FromRawState raw = \<lparr>st = raw, localName = [], localOpts = []\<rparr>"

definition Scratch :: State where
  "Scratch = \<lparr>st = llb_Scratch, localName = [], localOpts = []\<rparr>"

definition Local :: "string \<Rightarrow> LocalOption list \<Rightarrow> State" where
  "Local name opts = \<lparr>st = llb_Local name opts, localName = name, localOpts = opts\<rparr>"

definition Image :: "string \<Rightarrow> ImageOption list \<Rightarrow> State" where
  "Image ref opts = \<lparr>st = llb_Image ref opts, localName = [], localOpts = []\<rparr>"

definition Git :: "string \<Rightarrow> string \<Rightarrow> GitOption list \<Rightarrow> State" where
  "Git remote ref opts = \<lparr>st = llb_Git remote ref opts, localName = [], localOpts = []\<rparr>"

type_synonym cache = "string \<rightharpoonup> State"

definition init :: cache where
  "init = Map.empty"

definition WithInclude ::
  "(string \<Rightarrow> uint64) \<Rightarrow> cache \<Rightarrow> State \<Rightarrow> string list \<Rightarrow> (panic + State) \<times> cache" where
  "WithInclude probe withincludCache s incl =
     (if localName s = [] then (Inr s, withincludCache)
      else
        case fixIncl incl of
          Inl p \<Rightarrow> (Inl p, withincludCache)
        | Inr incl \<Rightarrow>
            let key = getSharedKeyHintFromInclude probe (localName s) incl
            in (case withincludCache key of
                  Some cached \<Rightarrow> (Inr cached, withincludCache)
                | None \<Rightarrow>
                    let opts = foldl (\<lambda>opts o'. opts @ [o']) [] (localOpts s);
                        opts = opts @ [IncludePatterns incl];
                        opts = opts @ [SharedKeyHint key];
                        new = \<lparr>st = llb_Local (localName s) opts, localName = [], localOpts = []\<rparr>
                    in (Inr new, withincludCache(key \<mapsto> new))))"

text \<open>
  The caches the program can hold: the one \<open>init\<close> creates, and those left by calls of
  \<open>WithInclude\<close>, the only function that writes the cache, on any file system, receiver
  and include list.
\<close>

inductive reachable :: "cache \<Rightarrow> bool" where
  reachable_init: "reachable init"
| reachable_WithInclude: "reachable c \<Longrightarrow> reachable (snd (WithInclude probe c s incl))"

section \<open>The specification's words\<close>

text \<open>
  The normalization as the specification states it, on the text of the pattern: \<open>"."\<close>
  becomes \<open>"./*"\<close>, a pattern ending in the component \<open>"."\<close> has that final \<open>"."\<close>
  replaced by \<open>"*"\<close>, anything else is unchanged.
\<close>

definition spec_normalize :: "string \<Rightarrow> string" where
  "spec_normalize inc =
     (if inc = ''.'' then ''./*''
      else if suffix ''/.'' inc then butlast inc @ ''*''
      else inc)"

text \<open>
  The cache key as the specification states it: the digest of the name followed by, for
  every include path, the path and the 8 bytes of its identity number.
\<close>

definition spec_cache_key :: "(string \<Rightarrow> uint64) \<Rightarrow> string \<Rightarrow> string list \<Rightarrow> string" where
  "spec_cache_key probe name incl =
     EncodeToString (sha1_digest
       (bytes name @ concat (map (\<lambda>path. bytes path @ LittleEndian_PutUint64 (make_bytes 8) (probe path)) incl)))"

text \<open>The step of \<open>Base\<close> that keeps the text after the last separator, named for the proofs.\<close>

definition lastElement :: "string \<Rightarrow> string" where
  "lastElement path =
     (let i = lastSeparator path (int (length path) - 1)
      in if 0 \<le> i then drop (nat (i + 1)) path else path)"

section \<open>filepath.Base in closed form\<close>

lemma stripTrailingSeparators_eq:
  "stripTrailingSeparators path = rev (dropWhile IsPathSeparator (rev path))"
proof (induction path rule: rev_induct)
  case Nil
  show ?case by (simp add: stripTrailingSeparators.simps)
next
  case (snoc c cs)
  show ?case
    by (subst stripTrailingSeparators.simps) (simp add: snoc.IH)
qed

lemma lastSeparator_append:
  "i < int (length xs) \<Longrightarrow> lastSeparator (xs @ ys) i = lastSeparator xs i"
proof (induction "nat (i + 1)" arbitrary: i)
  case 0
  then have "i < 0" by simp
  then show ?case by (simp add: lastSeparator.simps)
next
  case (Suc n)
  then have n: "n = nat ((i - 1) + 1)" and lt: "i - 1 < int (length xs)" and ge: "0 \<le> i" by simp_all
  have ih: "lastSeparator (xs @ ys) (i - 1) = lastSeparator xs (i - 1)"
    by (rule Suc.hyps(1) [OF n lt])
  have "nat i < length xs"
    using Suc.prems ge by linarith
  then have nth: "(xs @ ys) ! nat i = xs ! nat i"
    by (simp add: nth_append)
  show ?case
    by (subst lastSeparator.simps, subst (2) lastSeparator.simps) (simp add: ih nth)
qed

lemma lastSeparator_Nil: "lastSeparator [] (- 1) = - 1"
  by (simp add: lastSeparator.simps)

lemma lastSeparator_snoc:
  "lastSeparator (cs @ [c]) (int (length cs)) =
     (if IsPathSeparator c then int (length cs) else lastSeparator cs (int (length cs) - 1))"
  by (subst lastSeparator.simps) (simp add: lastSeparator_append)

lemma lastSeparator_bounds:
  "- 1 \<le> lastSeparator cs (int (length cs) - 1) \<and> lastSeparator cs (int (length cs) - 1) < int (length cs)"
proof (induction cs rule: rev_induct)
  case Nil
  show ?case by (simp add: lastSeparator_Nil)
next
  case (snoc c cs)
  then show ?case by (simp add: lastSeparator_snoc)
qed

lemma lastElement_eq:
  "lastElement cs = rev (takeWhile (\<lambda>c. \<not> IsPathSeparator c) (rev cs))"
proof (induction cs rule: rev_induct)
  case Nil
  show ?case by (simp add: lastElement_def lastSeparator_Nil)
next
  case (snoc c cs)
  have b: "- 1 \<le> lastSeparator cs (int (length cs) - 1)" "lastSeparator cs (int (length cs) - 1) < int (length cs)"
    using lastSeparator_bounds [of cs] by simp_all
  show ?case
  proof (cases "IsPathSeparator c")
    case True
    then show ?thesis by (simp add: lastElement_def lastSeparator_snoc nat_add_distrib)
  next
    case False
    with snoc b show ?thesis
      by (auto simp: lastElement_def lastSeparator_snoc Let_def nat_add_distrib split: if_splits)
  qed
qed

lemma Base_lastElement:
  "Base path =
     (if path = [] then ''.''
      else let p = lastElement (stripTrailingSeparators path) in if p = [] then ''/'' else p)"
  by (simp add: Base_def lastElement_def VolumeName_def Let_def)

lemma Base_eq:
  "Base path =
     (if path = [] then ''.''
      else let q = rev (takeWhile (\<lambda>c. \<not> IsPathSeparator c) (dropWhile IsPathSeparator (rev path)))
           in if q = [] then ''/'' else q)"
  by (simp add: Base_lastElement lastElement_eq stripTrailingSeparators_eq)

lemma Base_dot_slashes:
  assumes "p = [] \<or> last p = CHR ''/''"
  shows "Base (p @ ''.'' @ replicate n (CHR ''/'')) = ''.''"
proof -
  have d: "dropWhile IsPathSeparator (replicate n CHR ''/'' @ CHR ''.'' # rev p) = CHR ''.'' # rev p"
    by (induction n) (simp_all add: IsPathSeparator_def)
  have t: "takeWhile (\<lambda>c. \<not> IsPathSeparator c) (rev p) = []"
    using assms by (cases p rule: rev_cases) (simp_all add: IsPathSeparator_def)
  have nd: "\<not> IsPathSeparator (CHR ''.'')"
    by (simp add: IsPathSeparator_def)
  show ?thesis
    by (simp add: Base_eq d t nd)
qed

lemma Base_dot_cases:
  assumes "Base inc = ''.''" "inc \<noteq> []"
  shows "\<exists>p n. inc = p @ ''.'' @ replicate n (CHR ''/'') \<and> (p = [] \<or> last p = CHR ''/'')"
proof -
  define r where "r = rev inc"
  define n where "n = length (takeWhile IsPathSeparator r)"
  define d where "d = dropWhile IsPathSeparator r"
  have r: "r = replicate n (CHR ''/'') @ d"
  proof -
    have "\<forall>c \<in> set (takeWhile IsPathSeparator r). c = CHR ''/''"
      by (auto dest: set_takeWhileD simp: IsPathSeparator_def)
    then have "takeWhile IsPathSeparator r = replicate n (CHR ''/'')"
      unfolding n_def by (simp add: replicate_length_same)
    then show ?thesis
      unfolding d_def by (metis takeWhile_dropWhile_id)
  qed
  define q where "q = takeWhile (\<lambda>c. \<not> IsPathSeparator c) d"
  define e where "e = dropWhile (\<lambda>c. \<not> IsPathSeparator c) d"
  have de: "d = q @ e" unfolding q_def e_def by simp
  have "Base inc = (if q = [] then ''/'' else rev q)"
    using assms(2) by (simp add: Base_eq q_def d_def r_def Let_def)
  with assms(1) have "rev q = ''.''"
    by (auto split: if_splits)
  then have q: "q = ''.''"
    by simp
  have e: "e = [] \<or> hd e = CHR ''/''"
    unfolding e_def using hd_dropWhile [of "\<lambda>c. \<not> IsPathSeparator c" d]
    by (auto simp: IsPathSeparator_def)
  have "inc = rev e @ ''.'' @ replicate n (CHR ''/'')"
    using r de q unfolding r_def by (metis append_assoc rev_append rev_replicate rev_rev_ident rev_singleton_conv)
  moreover have "rev e = [] \<or> last (rev e) = CHR ''/''"
    using e by (auto simp: last_rev)
  ultimately show ?thesis by blast
qed

section \<open>fixIncl as a map over the patterns\<close>

lemma fixIncl_loop_acc:
  "fixIncl_loop incl acc = (case fixIncl_loop incl [] of Inl p \<Rightarrow> Inl p | Inr out \<Rightarrow> Inr (acc @ out))"
proof (induction incl arbitrary: acc)
  case Nil
  show ?case by simp
next
  case (Cons inc incl)
  have a: "fixIncl_loop incl (acc @ [x]) =
      (case fixIncl_loop incl [x] of Inl p \<Rightarrow> Inl p | Inr out \<Rightarrow> Inr (acc @ out))" for x
    by (subst Cons.IH [of "acc @ [x]"], subst Cons.IH [of "[x]"]) (simp split: sum.splits)
  show ?case
    by (simp add: a split: sum.splits)
qed

lemma fixIncl_Nil: "fixIncl [] = Inr []"
  by (simp add: fixIncl_def)

lemma slice_to_butlast:
  "inc \<noteq> [] \<Longrightarrow> slice_to inc (int (length inc) - 1) = Inr (butlast inc)"
  by (cases inc rule: rev_cases) (simp_all add: slice_to_def)

lemma fixIncl_Cons:
  "inc \<noteq> [] \<Longrightarrow>
   fixIncl (inc # incl) =
     (case fixIncl incl of
        Inl p \<Rightarrow> Inl p
      | Inr out \<Rightarrow>
          Inr ((if inc = ''.'' then ''./*''
                else if Base inc = ''.'' then butlast inc @ ''*''
                else inc) # out))"
  unfolding fixIncl_def
  by (simp add: slice_to_butlast fixIncl_loop_acc [of incl "[x]" for x] split: sum.splits)

lemma fixIncl_Cons_empty: "fixIncl ([] # incl) = Inl (SliceBoundsOutOfRange (- 1))"
  by (simp add: fixIncl_def Base_def slice_to_def)

lemma fixIncl_map:
  "[] \<notin> set incl \<Longrightarrow>
   fixIncl incl =
     Inr (map (\<lambda>inc. if inc = ''.'' then ''./*''
                     else if Base inc = ''.'' then butlast inc @ ''*''
                     else inc) incl)"
  by (induction incl) (auto simp: fixIncl_Nil fixIncl_Cons)

lemma Base_dot_iff_suffix:
  assumes "inc \<noteq> []" "last inc \<noteq> CHR ''/''" "inc \<noteq> ''.''"
  shows "Base inc = ''.'' \<longleftrightarrow> suffix ''/.'' inc"
proof
  assume "Base inc = ''.''"
  then obtain p n where inc: "inc = p @ ''.'' @ replicate n (CHR ''/'')"
    and p: "p = [] \<or> last p = CHR ''/''"
    using Base_dot_cases [OF _ assms(1)] by blast
  have "n = 0"
  proof (rule ccontr)
    assume "n \<noteq> 0"
    then obtain m where "n = Suc m" by (cases n) simp_all
    then have "last inc = CHR ''/''"
      unfolding inc by (simp add: replicate_append_same [symmetric] del: replicate_Suc)
    with assms(2) show False by simp
  qed
  with inc have inc': "inc = p @ ''.''" by simp
  with assms(3) have "p \<noteq> []" by auto
  with p have "last p = CHR ''/''" by simp
  with \<open>p \<noteq> []\<close> have "p = butlast p @ ''/''"
    by (metis append_butlast_last_id)
  with inc' have "inc = butlast p @ ''/.''" by (metis append_assoc append_Cons append_Nil)
  then show "suffix ''/.'' inc" by (metis suffixI)
next
  assume "suffix ''/.'' inc"
  then obtain q where "inc = q @ ''/.''" by (auto simp: suffix_def)
  then have "inc = (q @ ''/'') @ ''.'' @ replicate 0 (CHR ''/'')" by simp
  moreover have "Base ((q @ ''/'') @ ''.'' @ replicate 0 (CHR ''/'')) = ''.''"
    by (rule Base_dot_slashes) simp
  ultimately show "Base inc = ''.''" by simp
qed

lemma fixIncl_spec_normalize:
  assumes "\<forall>inc \<in> set incl. inc \<noteq> [] \<and> last inc \<noteq> CHR ''/''"
  shows "fixIncl incl = Inr (map spec_normalize incl)"
proof -
  have "[] \<notin> set incl" using assms by auto
  moreover have "(if inc = ''.'' then ''./*''
                  else if Base inc = ''.'' then butlast inc @ ''*'' else inc) = spec_normalize inc"
    if "inc \<in> set incl" for inc
    using assms that Base_dot_iff_suffix [of inc] by (auto simp: spec_normalize_def)
  ultimately show ?thesis
    by (simp add: fixIncl_map cong: map_cong)
qed

section \<open>The bytes written to the hash\<close>

lemma PutUint64_length: "length b = 8 \<Longrightarrow> length (LittleEndian_PutUint64 b v) = 8"
  by (simp add: LittleEndian_PutUint64_def)

lemma PutUint64_buffer:
  "length b = 8 \<Longrightarrow> LittleEndian_PutUint64 b v = LittleEndian_PutUint64 (make_bytes 8) v"
  by (simp add: LittleEndian_PutUint64_def make_bytes_def)

lemma addToHash_fst:
  "length b = 8 \<Longrightarrow>
   fst (addToHash probe (h, b) path) = h @ bytes path @ LittleEndian_PutUint64 (make_bytes 8) (probe path)"
  by (simp add: addToHash_def hash_Write_def Let_def PutUint64_buffer)

lemma addToHash_snd:
  "length b = 8 \<Longrightarrow> length (snd (addToHash probe (h, b) path)) = 8"
  by (simp add: addToHash_def Let_def PutUint64_length)

lemma foldl_addToHash:
  "length (snd hb) = 8 \<Longrightarrow>
   fst (foldl (addToHash probe) hb incl) =
     fst hb @ concat (map (\<lambda>path. bytes path @ LittleEndian_PutUint64 (make_bytes 8) (probe path)) incl)
   \<and> length (snd (foldl (addToHash probe) hb incl)) = 8"
proof (induction incl arbitrary: hb)
  case Nil
  then show ?case by simp
next
  case (Cons path incl)
  obtain h b where hb: "hb = (h, b)" by (cases hb)
  with Cons.prems have b: "length b = 8" by simp
  have "length (snd (addToHash probe hb path)) = 8"
    unfolding hb by (rule addToHash_snd [OF b])
  from Cons.IH [OF this] show ?case
    by (simp add: hb addToHash_fst [OF b])
qed

lemma hashState_fst:
  "fst (hashState probe name incl) =
     concat (map (\<lambda>path. bytes path @ LittleEndian_PutUint64 (make_bytes 8) (probe path)) (name # incl))"
proof -
  have m: "length (make_bytes 8) = 8" by (simp add: make_bytes_def)
  have "length (snd (addToHash probe (sha1_New, make_bytes 8) name)) = 8"
    by (rule addToHash_snd [OF m])
  from foldl_addToHash [OF this, of probe incl] show ?thesis
    by (simp add: hashState_def addToHash_fst [OF m] sha1_New_def)
qed

lemma key_eq:
  "getSharedKeyHintFromInclude probe name incl =
     EncodeToString (sha1_digest
       (concat (map (\<lambda>path. bytes path @ LittleEndian_PutUint64 (make_bytes 8) (probe path)) (name # incl))))"
  by (simp add: getSharedKeyHintFromInclude_def hash_Sum_def hashState_fst)

lemma PutUint64_zero: "LittleEndian_PutUint64 (make_bytes 8) 0 = [0, 0, 0, 0, 0, 0, 0, 0]"
  by (simp add: LittleEndian_PutUint64_def make_bytes_def)

lemma bytes_ctx: "bytes ''ctx'' = [99, 116, 120]"
  by (simp add: bytes_def)

lemma bytes_Cons: "bytes (c # cs) = of_char c # bytes cs"
  by (simp add: bytes_def)

lemma bytes_Nil: "bytes [] = []"
  by (simp add: bytes_def)

lemma digest_ctx:
  "EncodeToString (sha1_digest [99, 116, 120]) = ''4024700fd9f055274c529971e23ba54c20b0907c''"
  by code_simp

lemma digest_ctx_zero:
  "EncodeToString (sha1_digest [99, 116, 120, 0, 0, 0, 0, 0, 0, 0, 0])
     = ''e1fa11c856a7e8b3be4592204958dbcfae737b28''"
  by code_simp



lemma digest_ctx_dotstar:
  "EncodeToString (sha1_digest
     [99, 116, 120, 0, 0, 0, 0, 0, 0, 0, 0, 46, 47, 42, 0, 0, 0, 0, 0, 0, 0, 0])
     = ''d7b35a2e821df596ce8183d25ce546406e068d7f''"
  by code_simp

lemma key_ctx_dotstar:
  "getSharedKeyHintFromInclude (\<lambda>path. 0) ''ctx'' [''./*''] = ''d7b35a2e821df596ce8183d25ce546406e068d7f''"
  by (simp add: key_eq PutUint64_zero bytes_Cons bytes_Nil digest_ctx_dotstar)


lemma PutUint64_zero_buffer:
  "length b = 8 \<Longrightarrow> LittleEndian_PutUint64 b 0 = [0, 0, 0, 0, 0, 0, 0, 0]"
  by (simp add: LittleEndian_PutUint64_def)

lemma addToHash_zero:
  "length b = 8 \<Longrightarrow> probe path = 0 \<Longrightarrow>
   addToHash probe (h, b) path = (h @ bytes path @ [0, 0, 0, 0, 0, 0, 0, 0], [0, 0, 0, 0, 0, 0, 0, 0])"
  by (simp add: addToHash_def hash_Write_def Let_def PutUint64_zero_buffer)

lemma PutUint64_258:
  "LittleEndian_PutUint64 (make_bytes 8) 258 = [2, 1, 0, 0, 0, 0, 0, 0]"
  by (simp add: LittleEndian_PutUint64_def make_bytes_def)

lemma addToHash_eq:
  "length b = 8 \<Longrightarrow>
   addToHash probe (h, b) path
     = (h @ bytes path @ LittleEndian_PutUint64 (make_bytes 8) (probe path),
        LittleEndian_PutUint64 (make_bytes 8) (probe path))"
  by (simp add: addToHash_def hash_Write_def Let_def PutUint64_buffer)

section \<open>WithInclude case by case\<close>

lemma foldl_snoc: "foldl (\<lambda>opts o'. opts @ [o']) acc xs = acc @ xs"
  by (induction xs arbitrary: acc) simp_all

lemma WithInclude_nonlocal: "localName s = [] \<Longrightarrow> WithInclude probe c s incl = (Inr s, c)"
  by (simp add: WithInclude_def)

lemma WithInclude_panic:
  "localName s \<noteq> [] \<Longrightarrow> fixIncl incl = Inl p \<Longrightarrow> WithInclude probe c s incl = (Inl p, c)"
  by (simp add: WithInclude_def)

lemma WithInclude_hit:
  "localName s \<noteq> [] \<Longrightarrow> fixIncl incl = Inr incl' \<Longrightarrow>
   c (getSharedKeyHintFromInclude probe (localName s) incl') = Some cached \<Longrightarrow>
   WithInclude probe c s incl = (Inr cached, c)"
  by (simp add: WithInclude_def)

lemma WithInclude_miss:
  "localName s \<noteq> [] \<Longrightarrow> fixIncl incl = Inr incl' \<Longrightarrow>
   c (getSharedKeyHintFromInclude probe (localName s) incl') = None \<Longrightarrow>
   WithInclude probe c s incl =
     (Inr \<lparr>st = llb_Local (localName s)
               (localOpts s @ [IncludePatterns incl',
                  SharedKeyHint (getSharedKeyHintFromInclude probe (localName s) incl')]),
            localName = [], localOpts = []\<rparr>,
      c(getSharedKeyHintFromInclude probe (localName s) incl' \<mapsto>
        \<lparr>st = llb_Local (localName s)
               (localOpts s @ [IncludePatterns incl',
                  SharedKeyHint (getSharedKeyHintFromInclude probe (localName s) incl')]),
            localName = [], localOpts = []\<rparr>))"
  by (simp add: WithInclude_def Let_def foldl_snoc)

lemma WithInclude_cache_names:
  assumes "\<forall>k v. c k = Some v \<longrightarrow> localName v = []"
  shows "\<forall>k v. snd (WithInclude probe c s incl) k = Some v \<longrightarrow> localName v = []"
  using assms
  by (auto simp: WithInclude_def Let_def split: sum.splits option.splits if_splits)

lemma reachable_cache_names:
  "reachable c \<Longrightarrow> \<forall>k v. c k = Some v \<longrightarrow> localName v = []"
proof (induction rule: reachable.induct)
  case reachable_init
  show ?case by (simp add: init_def)
next
  case (reachable_WithInclude c probe s incl)
  from reachable_WithInclude.IH show ?case by (rule WithInclude_cache_names)
qed

lemma WithInclude_result_name:
  assumes "\<forall>k v. c k = Some v \<longrightarrow> localName v = []" "localName s \<noteq> []"
    "fst (WithInclude probe c s incl) = Inr r"
  shows "localName r = []"
  using assms
  by (auto simp: WithInclude_def Let_def split: sum.splits option.splits if_splits)

lemma fixIncl_dot: "fixIncl [''.''] = Inr [''./*'']"
  by (simp add: fixIncl_Cons fixIncl_Nil)

lemma fixIncl_src_readme: "fixIncl [''src/.'', ''README.md''] = Inr [''src/*'', ''README.md'']"
  by (simp add: fixIncl_Cons fixIncl_Nil Base_eq IsPathSeparator_def)

lemma fixIncl_dot_slash: "fixIncl [''./'', ''a/./''] = Inr [''.*'', ''a/.*'']"
  by (simp add: fixIncl_Cons fixIncl_Nil Base_eq IsPathSeparator_def)

lemma fixIncl_dot_slash_one: "fixIncl [''./''] = Inr [''.*'']"
  by (simp add: fixIncl_Cons fixIncl_Nil Base_eq IsPathSeparator_def)

lemma fixIncl_a_dot_slash_one: "fixIncl [''a/./''] = Inr [''a/.*'']"
  by (simp add: fixIncl_Cons fixIncl_Nil Base_eq IsPathSeparator_def)


section \<open>Pattern normalization\<close>

text \<open>
  Claim C1 (normalization of every include list). The specification lets \<open>fixIncl\<close> leave
  a pattern that does not end in a bare \<open>"."\<close> component unchanged, for every list. The
  empty pattern does not end in one, but \<open>filepath.Base("")\<close> is \<open>"."\<close>, so the code
  takes the branch \<open>inc[:len(inc)-1]\<close> with \<open>len(inc) = 0\<close> and panics on the slice
  bound \<open>-1\<close> instead of returning \<open>[""]\<close>; \<open>WithInclude\<close> on a local State panics
  with it and leaves the cache as it was. (The empty string is written \<open>[]\<close>.)
\<close>

theorem fixIncl_empty_pattern_panics:
  "Base [] = ''.''
   \<and> fixIncl [[]] = Inl (SliceBoundsOutOfRange (- 1))
   \<and> WithInclude probe c (Local ''ctx'' opts) [[]] = (Inl (SliceBoundsOutOfRange (- 1)), c)"
  by (simp add: fixIncl_Cons_empty Base_def WithInclude_panic Local_def)

text \<open>
  Claim C10 (trailing separator). In a list without an empty pattern, a pattern made of a
  prefix that is empty or ends in a separator, then \<open>"."\<close>, then one or more separators,
  loses only its last character and gets \<open>"*"\<close> appended; the list keeps its length. So
  \<open>"./"\<close> becomes \<open>".*"\<close> and \<open>"a/./"\<close> becomes \<open>"a/.*"\<close>.
\<close>

theorem trailing_separator_normalization:
  assumes "[] \<notin> set incl" "i < length incl"
    "incl ! i = p @ ''.'' @ replicate (Suc n) (CHR ''/'')" "p = [] \<or> last p = CHR ''/''"
  shows "(\<exists>out. fixIncl incl = Inr out \<and> length out = length incl
           \<and> out ! i = p @ ''.'' @ replicate n (CHR ''/'') @ ''*'')
    \<and> fixIncl [''./''] = Inr [''.*'']
    \<and> fixIncl [''a/./''] = Inr [''a/.*'']"
proof -
  let ?inc = "p @ ''.'' @ replicate (Suc n) (CHR ''/'')"
  have base: "Base ?inc = ''.''"
    by (rule Base_dot_slashes [OF assms(4)])
  have "length ?inc \<ge> 2" by simp
  then have ne: "?inc \<noteq> ''.''"
    by (metis One_nat_def Suc_1 length_Cons list.size(3) not_less_eq_eq order_refl)
  have "?inc = (p @ ''.'' @ replicate n (CHR ''/'')) @ ''/''"
    by (simp add: replicate_append_same)
  then have bl: "butlast ?inc = p @ ''.'' @ replicate n (CHR ''/'')"
    by (metis butlast_snoc)
  let ?f = "\<lambda>inc. if inc = ''.'' then ''./*''
                  else if Base inc = ''.'' then butlast inc @ ''*'' else inc"
  have f: "?f ?inc = (p @ ''.'' @ replicate n (CHR ''/'')) @ ''*''"
    by (simp only: base ne bl if_True if_False simp_thms)
  have out: "fixIncl incl = Inr (map ?f incl)"
    by (rule fixIncl_map [OF assms(1)])
  have "map ?f incl ! i = ?f ?inc"
    unfolding nth_map [OF assms(2)] assms(3) by (rule refl)
  then have i: "map ?f incl ! i = p @ ''.'' @ replicate n (CHR ''/'') @ ''*''"
    unfolding f by simp
  have "\<exists>out. fixIncl incl = Inr out \<and> length out = length incl
           \<and> out ! i = p @ ''.'' @ replicate n (CHR ''/'') @ ''*''"
  proof (intro exI conjI)
    show "fixIncl incl = Inr (map ?f incl)" by (rule out)
    show "length (map ?f incl) = length incl" by simp
    show "map ?f incl ! i = p @ ''.'' @ replicate n (CHR ''/'') @ ''*''" by (rule i)
  qed
  then show ?thesis
    by (simp add: fixIncl_dot_slash_one fixIncl_a_dot_slash_one)
qed

text \<open>Claim C10 at a concrete input, with every hypothesis checked there.\<close>

theorem trailing_separator_normalization_witness:
  "[] \<notin> set [''./'', ''a/./'']
   \<and> 1 < length [''./'', ''a/./'']
   \<and> [''./'', ''a/./''] ! 1 = ''a/'' @ ''.'' @ replicate (Suc 0) (CHR ''/'')
   \<and> (''a/'' = [] \<or> last ''a/'' = CHR ''/'')
   \<and> (\<exists>out. fixIncl [''./'', ''a/./''] = Inr out \<and> length out = length [''./'', ''a/./'']
          \<and> out ! 1 = ''a/'' @ ''.'' @ replicate 0 (CHR ''/'') @ ''*'')
   \<and> fixIncl [''./''] = Inr [''.*'']
   \<and> fixIncl [''a/./''] = Inr [''a/.*'']
   \<and> fixIncl [''./'', ''a/./''] = Inr [''.*'', ''a/.*'']"
proof -
  have a: "[] \<notin> set [''./'', ''a/./'']" by simp
  have b: "1 < length [''./'', ''a/./'']" by simp
  have c: "[''./'', ''a/./''] ! 1 = ''a/'' @ ''.'' @ replicate (Suc 0) (CHR ''/'')" by simp
  have d: "''a/'' = [] \<or> last ''a/'' = CHR ''/''" by simp
  from trailing_separator_normalization [OF a b c d] show ?thesis
    using a b c d fixIncl_dot_slash by simp
qed

section \<open>The cache key\<close>

text \<open>
  Claim C2 (what enters the digest). As stated, the name is followed directly by the
  entries of the include paths. The code calls \<open>addToHash(name)\<close>, which also writes the
  8 bytes of the identity probe of the name. For the name \<open>"ctx"\<close>, no include path and
  a file system on which every \<open>Stat\<close> fails, the key of the code is the digest of
  \<open>"ctx"\<close> and 8 zero bytes, the key of the specification the digest of \<open>"ctx"\<close>.
\<close>

theorem spec_cache_key_counterexample:
  "getSharedKeyHintFromInclude (getInodeBestEffort (\<lambda>path. Inl (Errno 2))) ''ctx'' []
     \<noteq> spec_cache_key (getInodeBestEffort (\<lambda>path. Inl (Errno 2))) ''ctx'' []"
  by (simp add: key_eq spec_cache_key_def getInodeBestEffort_def PutUint64_zero
      bytes_Cons bytes_Nil digest_ctx digest_ctx_zero)

text \<open>
  Claim C2, amended: the bytes written to the hash are the name, the 8-byte little-endian
  identity number of the name, and then for each include path in order the path and the
  8-byte little-endian identity number of that path; the key is the hex encoding of the
  SHA-1 digest of exactly these bytes.
\<close>

theorem key_digest_covers_name_identity:
  "fst (hashState probe name incl) =
     bytes name @ LittleEndian_PutUint64 (make_bytes 8) (probe name)
       @ concat (map (\<lambda>path. bytes path @ LittleEndian_PutUint64 (make_bytes 8) (probe path)) incl)
   \<and> getSharedKeyHintFromInclude probe name incl =
     EncodeToString (sha1_digest
       (bytes name @ LittleEndian_PutUint64 (make_bytes 8) (probe name)
          @ concat (map (\<lambda>path. bytes path @ LittleEndian_PutUint64 (make_bytes 8) (probe path)) incl)))"
  by (simp add: getSharedKeyHintFromInclude_def hash_Sum_def hashState_fst)

text \<open>
  Claim C6 (probe failures). On both platforms the probe returns a number, never an error:
  when \<open>Stat\<close> fails, or \<open>Open\<close> fails, or \<open>GetFileInformationByHandle\<close> fails, it
  returns 0. The key computation goes on with that 0: whatever the 8-byte buffer \<open>b\<close> holds
  from the path before, \<open>addToHash\<close> on a path whose probe fails writes the path followed
  by 8 zero bytes and leaves \<open>b\<close> all zero. So the key is the digest of the name and the
  include paths in order, each followed by 8 zero bytes where its probe failed and by its
  identity number where it did not; where every probe fails, each is followed by 8 zero
  bytes.
\<close>

theorem probe_failure_degrades_to_zero:
  "(Stat path = Inl err \<longrightarrow> getInodeBestEffort Stat path = 0)
   \<and> (Open path = Inl err \<or> (Open path = Inr f \<and> GetFileInformationByHandle f = Inl err) \<longrightarrow>
        getInodeBestEffort_windows Open GetFileInformationByHandle path = 0)
   \<and> (length b = 8 \<and> Stat path = Inl err \<longrightarrow>
        addToHash (getInodeBestEffort Stat) (h, b) path
          = (h @ bytes path @ [0, 0, 0, 0, 0, 0, 0, 0], [0, 0, 0, 0, 0, 0, 0, 0]))
   \<and> (length b = 8
        \<and> (Open path = Inl err \<or> (Open path = Inr f \<and> GetFileInformationByHandle f = Inl err)) \<longrightarrow>
        addToHash (getInodeBestEffort_windows Open GetFileInformationByHandle) (h, b) path
          = (h @ bytes path @ [0, 0, 0, 0, 0, 0, 0, 0], [0, 0, 0, 0, 0, 0, 0, 0]))
   \<and> (length b = 8 \<and> probe path = 0 \<longrightarrow>
        addToHash probe (h, b) path
          = (h @ bytes path @ [0, 0, 0, 0, 0, 0, 0, 0], [0, 0, 0, 0, 0, 0, 0, 0]))
   \<and> getSharedKeyHintFromInclude (getInodeBestEffort Stat) name incl =
        EncodeToString (sha1_digest
          (concat (map (\<lambda>p. bytes p @
              (case Stat p of
                 Inl e \<Rightarrow> [0, 0, 0, 0, 0, 0, 0, 0]
               | Inr stat \<Rightarrow> LittleEndian_PutUint64 (make_bytes 8) (Ino stat)))
            (name # incl))))
   \<and> getSharedKeyHintFromInclude probe name incl =
        EncodeToString (sha1_digest
          (concat (map (\<lambda>p. bytes p @
              (if probe p = 0 then [0, 0, 0, 0, 0, 0, 0, 0]
               else LittleEndian_PutUint64 (make_bytes 8) (probe p)))
            (name # incl))))
   \<and> ((\<forall>p \<in> set (name # incl). probe p = 0) \<longrightarrow>
      getSharedKeyHintFromInclude probe name incl =
        EncodeToString (sha1_digest
          (concat (map (\<lambda>p. bytes p @ [0, 0, 0, 0, 0, 0, 0, 0]) (name # incl)))))"
proof -
  have a: "getInodeBestEffort Stat path = 0" if "Stat path = Inl err"
    using that by (simp add: getInodeBestEffort_def)
  have b: "getInodeBestEffort_windows Open GetFileInformationByHandle path = 0"
    if "Open path = Inl err \<or> (Open path = Inr f \<and> GetFileInformationByHandle f = Inl err)"
    using that by (auto simp: getInodeBestEffort_windows_def)
  have A: "Stat path = Inl err \<longrightarrow> getInodeBestEffort Stat path = 0"
    using a by blast
  have B: "Open path = Inl err \<or> (Open path = Inr f \<and> GetFileInformationByHandle f = Inl err) \<longrightarrow>
        getInodeBestEffort_windows Open GetFileInformationByHandle path = 0"
    using b by blast
  have C: "length b = 8 \<and> Stat path = Inl err \<longrightarrow>
        addToHash (getInodeBestEffort Stat) (h, b) path
          = (h @ bytes path @ [0, 0, 0, 0, 0, 0, 0, 0], [0, 0, 0, 0, 0, 0, 0, 0])"
    using a by (simp add: addToHash_zero)
  have D: "length b = 8
        \<and> (Open path = Inl err \<or> (Open path = Inr f \<and> GetFileInformationByHandle f = Inl err)) \<longrightarrow>
        addToHash (getInodeBestEffort_windows Open GetFileInformationByHandle) (h, b) path
          = (h @ bytes path @ [0, 0, 0, 0, 0, 0, 0, 0], [0, 0, 0, 0, 0, 0, 0, 0])"
  proof
    assume h: "length b = 8
        \<and> (Open path = Inl err \<or> (Open path = Inr f \<and> GetFileInformationByHandle f = Inl err))"
    then have "getInodeBestEffort_windows Open GetFileInformationByHandle path = 0"
      by (intro b) simp
    with h show "addToHash (getInodeBestEffort_windows Open GetFileInformationByHandle) (h, b) path
          = (h @ bytes path @ [0, 0, 0, 0, 0, 0, 0, 0], [0, 0, 0, 0, 0, 0, 0, 0])"
      by (simp add: addToHash_zero)
  qed
  have E: "length b = 8 \<and> probe path = 0 \<longrightarrow>
        addToHash probe (h, b) path
          = (h @ bytes path @ [0, 0, 0, 0, 0, 0, 0, 0], [0, 0, 0, 0, 0, 0, 0, 0])"
    by (simp add: addToHash_zero)
  have F: "getSharedKeyHintFromInclude (getInodeBestEffort Stat) name incl =
        EncodeToString (sha1_digest
          (concat (map (\<lambda>p. bytes p @
              (case Stat p of
                 Inl e \<Rightarrow> [0, 0, 0, 0, 0, 0, 0, 0]
               | Inr stat \<Rightarrow> LittleEndian_PutUint64 (make_bytes 8) (Ino stat)))
            (name # incl))))"
  proof -
    have "(\<lambda>p. bytes p @ LittleEndian_PutUint64 (make_bytes 8) (getInodeBestEffort Stat p))
        = (\<lambda>p. bytes p @
              (case Stat p of
                 Inl e \<Rightarrow> [0, 0, 0, 0, 0, 0, 0, 0]
               | Inr stat \<Rightarrow> LittleEndian_PutUint64 (make_bytes 8) (Ino stat)))"
      by (rule ext) (simp add: getInodeBestEffort_def PutUint64_zero split: sum.splits)
    then show ?thesis
      unfolding key_eq by (rule arg_cong)
  qed
  have G: "getSharedKeyHintFromInclude probe name incl =
        EncodeToString (sha1_digest
          (concat (map (\<lambda>p. bytes p @
              (if probe p = 0 then [0, 0, 0, 0, 0, 0, 0, 0]
               else LittleEndian_PutUint64 (make_bytes 8) (probe p)))
            (name # incl))))"
  proof -
    have "(\<lambda>p. bytes p @ LittleEndian_PutUint64 (make_bytes 8) (probe p))
        = (\<lambda>p. bytes p @
              (if probe p = 0 then [0, 0, 0, 0, 0, 0, 0, 0]
               else LittleEndian_PutUint64 (make_bytes 8) (probe p)))"
      by (rule ext) (simp add: PutUint64_zero)
    then show ?thesis
      unfolding key_eq by (rule arg_cong)
  qed
  have H: "(\<forall>p \<in> set (name # incl). probe p = 0) \<longrightarrow>
      getSharedKeyHintFromInclude probe name incl =
        EncodeToString (sha1_digest
          (concat (map (\<lambda>p. bytes p @ [0, 0, 0, 0, 0, 0, 0, 0]) (name # incl))))"
  proof
    assume z: "\<forall>p \<in> set (name # incl). probe p = 0"
    have c: "map (\<lambda>p. bytes p @ LittleEndian_PutUint64 (make_bytes 8) (probe p)) (name # incl)
        = map (\<lambda>p. bytes p @ [0, 0, 0, 0, 0, 0, 0, 0]) (name # incl)"
      by (rule map_cong [OF refl]) (simp add: z PutUint64_zero)
    show "getSharedKeyHintFromInclude probe name incl =
        EncodeToString (sha1_digest
          (concat (map (\<lambda>p. bytes p @ [0, 0, 0, 0, 0, 0, 0, 0]) (name # incl))))"
      unfolding key_eq c by (rule refl)
  qed
  show ?thesis
    by (intro conjI A B C D E F G H)
qed

text \<open>
  Claim C6 at a concrete input, with every hypothesis checked there: \<open>"present"\<close> has
  inode 258 and leaves it in the buffer, \<open>"missing"\<close> fails after it.
\<close>

theorem probe_failure_degrades_to_zero_witness:
  "(\<lambda>p. if p = ''present'' then Inr \<lparr>Ino = 258\<rparr> else Inl (Errno 2)) ''missing'' = Inl (Errno 2)
   \<and> getInodeBestEffort (\<lambda>p. if p = ''present'' then Inr \<lparr>Ino = 258\<rparr> else Inl (Errno 2)) ''missing'' = 0
   \<and> (\<lambda>path. Inl (Errno 2)) ''missing'' = (Inl (Errno 2) :: Errno + nat)
   \<and> getInodeBestEffort_windows (\<lambda>path. Inl (Errno 2)) (\<lambda>f. Inl (Errno 6)) ''missing'' = 0
   \<and> (\<lambda>path. Inr 3) ''locked'' = (Inr 3 :: Errno + nat)
   \<and> (\<lambda>f. Inl (Errno 5)) (3 :: nat) = (Inl (Errno 5) :: Errno + ByHandleFileInformation)
   \<and> getInodeBestEffort_windows (\<lambda>path. Inr 3) (\<lambda>f. Inl (Errno 5)) ''locked'' = 0
   \<and> addToHash (getInodeBestEffort (\<lambda>p. if p = ''present'' then Inr \<lparr>Ino = 258\<rparr> else Inl (Errno 2)))
        ([], make_bytes 8) ''present''
      = (bytes ''present'' @ [2, 1, 0, 0, 0, 0, 0, 0], [2, 1, 0, 0, 0, 0, 0, 0])
   \<and> length [2, 1, 0, 0, 0, 0, 0, 0 :: byte] = 8
   \<and> addToHash (getInodeBestEffort (\<lambda>p. if p = ''present'' then Inr \<lparr>Ino = 258\<rparr> else Inl (Errno 2)))
        (bytes ''present'' @ [2, 1, 0, 0, 0, 0, 0, 0], [2, 1, 0, 0, 0, 0, 0, 0]) ''missing''
      = (bytes ''present'' @ [2, 1, 0, 0, 0, 0, 0, 0] @ bytes ''missing'' @ [0, 0, 0, 0, 0, 0, 0, 0],
         [0, 0, 0, 0, 0, 0, 0, 0])
   \<and> addToHash (getInodeBestEffort_windows (\<lambda>path. Inr 3) (\<lambda>f. Inl (Errno 5)))
        ([7], [2, 1, 0, 0, 0, 0, 0, 0]) ''locked''
      = ([7] @ bytes ''locked'' @ [0, 0, 0, 0, 0, 0, 0, 0], [0, 0, 0, 0, 0, 0, 0, 0])
   \<and> getSharedKeyHintFromInclude
        (getInodeBestEffort (\<lambda>p. if p = ''present'' then Inr \<lparr>Ino = 258\<rparr> else Inl (Errno 2)))
        ''ctx'' [''present'', ''missing'']
      = EncodeToString (sha1_digest
          (bytes ''ctx'' @ [0, 0, 0, 0, 0, 0, 0, 0]
           @ bytes ''present'' @ [2, 1, 0, 0, 0, 0, 0, 0]
           @ bytes ''missing'' @ [0, 0, 0, 0, 0, 0, 0, 0]))
   \<and> getInodeBestEffort (\<lambda>path. Inl (Errno 2)) ''ctx'' = 0
   \<and> getInodeBestEffort (\<lambda>path. Inl (Errno 2)) ''missing'' = 0
   \<and> getSharedKeyHintFromInclude (getInodeBestEffort (\<lambda>path. Inl (Errno 2))) ''ctx'' [''missing'']
      = EncodeToString (sha1_digest
          (concat (map (\<lambda>p. bytes p @ [0, 0, 0, 0, 0, 0, 0, 0]) [''ctx'', ''missing''])))"
proof -
  let ?Stat = "\<lambda>p. if p = ''present'' then Inr \<lparr>Ino = 258\<rparr> else Inl (Errno 2)"
  have m: "length (make_bytes 8) = 8"
    by (simp add: make_bytes_def)
  have present: "getInodeBestEffort ?Stat ''present'' = 258"
    by (simp add: getInodeBestEffort_def)
  have first: "addToHash (getInodeBestEffort ?Stat) ([], make_bytes 8) ''present''
      = (bytes ''present'' @ [2, 1, 0, 0, 0, 0, 0, 0], [2, 1, 0, 0, 0, 0, 0, 0])"
    by (simp add: addToHash_eq [OF m] present PutUint64_258)
  show ?thesis
    using
      probe_failure_degrades_to_zero [where Stat = ?Stat
        and path = "''missing''" and err = "Errno 2"
        and Open = "\<lambda>path. Inl (Errno 2)" and GetFileInformationByHandle = "\<lambda>f. Inl (Errno 6)"
        and b = "[2, 1, 0, 0, 0, 0, 0, 0]" and h = "bytes ''present'' @ [2, 1, 0, 0, 0, 0, 0, 0]"
        and probe = "getInodeBestEffort (\<lambda>path. Inl (Errno 2))"
        and name = "''ctx''" and incl = "[''present'', ''missing'']"]
      probe_failure_degrades_to_zero [where Stat = "\<lambda>path. Inl (Errno 2)"
        and Open = "\<lambda>path. Inr 3" and GetFileInformationByHandle = "\<lambda>f. Inl (Errno 5)"
        and path = "''locked''" and err = "Errno 5" and f = 3
        and b = "[2, 1, 0, 0, 0, 0, 0, 0]" and h = "[7]"
        and probe = "getInodeBestEffort (\<lambda>path. Inl (Errno 2))" and name = "''ctx''"
        and incl = "[''missing'']"]
    by (simp add: first getInodeBestEffort_def getInodeBestEffort_windows_def PutUint64_258 PutUint64_zero)
qed


section \<open>The dedup cache\<close>

text \<open>
  Claim C3 (non-local passthrough). For a State with an empty recorded name and any
  include list, \<open>WithInclude\<close> returns the receiver itself and the cache it was given:
  the result is the same whatever the cache holds, and the cache is not changed.
\<close>

theorem nonlocal_passthrough: "localName s = [] \<Longrightarrow> WithInclude probe c s incl = (Inr s, c)"
  by (simp add: WithInclude_def)

text \<open>Claim C3 at a concrete input, with every hypothesis checked there.\<close>

theorem nonlocal_passthrough_witness:
  "localName (Image ''alpine'' []) = []
   \<and> WithInclude (\<lambda>path. 0) init (Image ''alpine'' []) [''''] = (Inr (Image ''alpine'' []), init)"
  using nonlocal_passthrough [where s = "Image ''alpine'' []" and probe = "\<lambda>path. 0" and c = init and incl = "['''']"]
  by (simp add: Image_def)

text \<open>
  Two sequential calls where the first one returns. For two States with the same non-empty
  name \<open>N\<close>, the same include list \<open>P\<close> and the same probe, the second call has the outcome
  of the first and leaves the cache as the first left it; when normalization of \<open>P\<close> gives
  \<open>P'\<close>, the State returned is the entry the cache holds under the key of \<open>N\<close> and \<open>P'\<close>.
  The options of the second receiver play no part.
\<close>

lemma second_call_same_outcome:
  assumes "localName s1 = N" "localName s2 = N" "N \<noteq> []"
  shows "WithInclude probe (snd (WithInclude probe c s1 P)) s2 P = WithInclude probe c s1 P
    \<and> (\<forall>P'. fixIncl P = Inr P' \<longrightarrow>
          (\<exists>r. fst (WithInclude probe c s1 P) = Inr r
             \<and> snd (WithInclude probe c s1 P) (getSharedKeyHintFromInclude probe N P') = Some r))"
proof (cases "fixIncl P")
  case (Inl p)
  with assms show ?thesis by (simp add: WithInclude_panic)
next
  case (Inr P')
  show ?thesis
  proof (cases "c (getSharedKeyHintFromInclude probe N P')")
    case None
    with assms Inr show ?thesis
      by (simp add: WithInclude_miss WithInclude_hit)
  next
    case (Some cached)
    with assms Inr show ?thesis
      by (simp add: WithInclude_hit)
  qed
qed

text \<open>The same at \<open>"ctx"\<close> and \<open>["."]\<close>, with a second receiver that has other options.\<close>

lemma second_call_same_outcome_example:
  "localName (Local ''ctx'' []) = ''ctx''
   \<and> localName (Local ''ctx'' [SessionID ''w2'']) = ''ctx''
   \<and> ''ctx'' \<noteq> []
   \<and> fixIncl [''.''] = Inr [''./*'']
   \<and> WithInclude (\<lambda>path. 0) (snd (WithInclude (\<lambda>path. 0) init (Local ''ctx'' []) [''.'']))
        (Local ''ctx'' [SessionID ''w2'']) [''.'']
      = WithInclude (\<lambda>path. 0) init (Local ''ctx'' []) [''.'']
   \<and> fst (WithInclude (\<lambda>path. 0) init (Local ''ctx'' []) [''.''])
      = Inr \<lparr>st = llb_Local ''ctx''
                 [IncludePatterns [''./*''], SharedKeyHint ''d7b35a2e821df596ce8183d25ce546406e068d7f''],
              localName = [], localOpts = []\<rparr>
   \<and> snd (WithInclude (\<lambda>path. 0) init (Local ''ctx'' []) [''.''])
        ''d7b35a2e821df596ce8183d25ce546406e068d7f''
      = Some \<lparr>st = llb_Local ''ctx''
                 [IncludePatterns [''./*''], SharedKeyHint ''d7b35a2e821df596ce8183d25ce546406e068d7f''],
              localName = [], localOpts = []\<rparr>"
proof -
  have n: "localName (Local ''ctx'' []) = ''ctx''" "localName (Local ''ctx'' [SessionID ''w2'']) = ''ctx''"
    "''ctx'' \<noteq> []"
    by (simp_all add: Local_def)
  have m: "WithInclude (\<lambda>path. 0) init (Local ''ctx'' []) [''.'']
      = (Inr \<lparr>st = llb_Local ''ctx''
                 [IncludePatterns [''./*''], SharedKeyHint ''d7b35a2e821df596ce8183d25ce546406e068d7f''],
              localName = [], localOpts = []\<rparr>,
         init(''d7b35a2e821df596ce8183d25ce546406e068d7f'' \<mapsto>
           \<lparr>st = llb_Local ''ctx''
                 [IncludePatterns [''./*''], SharedKeyHint ''d7b35a2e821df596ce8183d25ce546406e068d7f''],
              localName = [], localOpts = []\<rparr>))"
    using WithInclude_miss [where s = "Local ''ctx'' []" and incl = "[''.'']" and incl' = "[''./*'']"
        and c = init and probe = "\<lambda>path. 0"]
    by (simp add: Local_def fixIncl_dot key_ctx_dotstar init_def)
  from second_call_same_outcome [OF n, where probe = "\<lambda>path. 0" and c = init and P = "[''.'']"]
  show ?thesis
    by (simp add: n fixIncl_dot m)
qed

text \<open>
  Claim C4 (dedup idempotence, for every include list). The claim has the second of two
  sequential calls with the same name and include list return the State the cache holds.
  On the include list \<open>[""]\<close> normalization panics, as in claim C1: the first call on a
  local State panics and stores nothing, the second call on the cache it left panics too,
  and no State is returned by either. (The empty string is written \<open>[]\<close>.)
\<close>

theorem dedup_calls_panic_on_empty_pattern:
  "fixIncl [[]] = Inl (SliceBoundsOutOfRange (- 1))
   \<and> WithInclude probe c (Local ''ctx'' opts1) [[]] = (Inl (SliceBoundsOutOfRange (- 1)), c)
   \<and> WithInclude probe (snd (WithInclude probe c (Local ''ctx'' opts1) [[]])) (Local ''ctx'' opts2) [[]]
      = (Inl (SliceBoundsOutOfRange (- 1)), c)
   \<and> (\<nexists>r. fst (WithInclude probe (snd (WithInclude probe c (Local ''ctx'' opts1) [[]]))
                 (Local ''ctx'' opts2) [[]]) = Inr r)"
  by (simp add: fixIncl_Cons_empty WithInclude_panic Local_def)

text \<open>
  Claim C5 (cache miss). For a local State, when normalization gives \<open>incl'\<close> and the cache
  has no entry under the key, \<open>WithInclude\<close> returns the State wrapping
  \<open>llb.Local(name, opts...)\<close> whose options are the recorded ones followed by
  \<open>IncludePatterns(incl')\<close> and \<open>SharedKeyHint(key)\<close>, and the cache afterwards maps the
  key to that State.
\<close>

theorem dedup_miss_builds_and_stores:
  assumes "localName s \<noteq> []" "fixIncl incl = Inr incl'"
    "c (getSharedKeyHintFromInclude probe (localName s) incl') = None"
  shows "\<exists>key new.
      key = getSharedKeyHintFromInclude probe (localName s) incl'
    \<and> new = \<lparr>st = llb_Local (localName s) (localOpts s @ [IncludePatterns incl', SharedKeyHint key]),
             localName = [], localOpts = []\<rparr>
    \<and> WithInclude probe c s incl = (Inr new, c(key \<mapsto> new))"
  using assms by (simp add: WithInclude_miss)

text \<open>Claim C5 at a concrete input, with every hypothesis checked there.\<close>

theorem dedup_miss_builds_and_stores_witness:
  "localName (Local ''ctx'' [SessionID ''w1'']) \<noteq> []
   \<and> fixIncl [''src/.'', ''README.md''] = Inr [''src/*'', ''README.md'']
   \<and> init (getSharedKeyHintFromInclude (\<lambda>path. 0) (localName (Local ''ctx'' [SessionID ''w1'']))
              [''src/*'', ''README.md'']) = None
   \<and> (\<exists>key new.
        key = getSharedKeyHintFromInclude (\<lambda>path. 0) ''ctx'' [''src/*'', ''README.md'']
      \<and> new = \<lparr>st = llb_Local ''ctx''
                      [SessionID ''w1'', IncludePatterns [''src/*'', ''README.md''], SharedKeyHint key],
                localName = [], localOpts = []\<rparr>
      \<and> WithInclude (\<lambda>path. 0) init (Local ''ctx'' [SessionID ''w1'']) [''src/.'', ''README.md'']
          = (Inr new, init(key \<mapsto> new)))"
proof -
  have a: "localName (Local ''ctx'' [SessionID ''w1'']) \<noteq> []"
    by (simp add: Local_def)
  have b: "fixIncl [''src/.'', ''README.md''] = Inr [''src/*'', ''README.md'']"
    by (rule fixIncl_src_readme)
  have c: "init (getSharedKeyHintFromInclude (\<lambda>path. 0) (localName (Local ''ctx'' [SessionID ''w1'']))
              [''src/*'', ''README.md'']) = None"
    by (simp add: init_def)
  from dedup_miss_builds_and_stores [where s = "Local ''ctx'' [SessionID ''w1'']" and c = init and probe = "\<lambda>path. 0", OF a b c]
  show ?thesis
    using a b c by (simp add: Local_def)
qed

text \<open>
  Claim C9 (the result is not local). From any cache the program can hold, a State returned
  by \<open>WithInclude\<close> on a local State, built or taken from the cache, has an empty recorded
  name; so a further \<open>WithInclude\<close> on it, with any include list, probe and cache,
  returns it unchanged and leaves that cache alone.
\<close>

theorem filtered_state_is_final:
  assumes "reachable c" "localName s \<noteq> []" "WithInclude probe c s P = (Inr r, c')"
  shows "localName r = [] \<and> WithInclude probe' c'' r Q = (Inr r, c'')"
proof -
  have "localName r = []"
    using WithInclude_result_name [OF reachable_cache_names [OF assms(1)] assms(2), of probe P r] assms(3)
    by simp
  then show ?thesis by (simp add: WithInclude_nonlocal)
qed

text \<open>Claim C9 at a concrete input, with every hypothesis checked there.\<close>

theorem filtered_state_is_final_witness:
  "reachable init
   \<and> localName (Local ''ctx'' []) \<noteq> []
   \<and> WithInclude (\<lambda>path. 0) init (Local ''ctx'' []) [''.'']
      = (Inr \<lparr>st = llb_Local ''ctx''
                 [IncludePatterns [''./*''], SharedKeyHint ''d7b35a2e821df596ce8183d25ce546406e068d7f''],
              localName = [], localOpts = []\<rparr>,
         init(''d7b35a2e821df596ce8183d25ce546406e068d7f'' \<mapsto>
           \<lparr>st = llb_Local ''ctx''
                 [IncludePatterns [''./*''], SharedKeyHint ''d7b35a2e821df596ce8183d25ce546406e068d7f''],
              localName = [], localOpts = []\<rparr>))
   \<and> localName \<lparr>st = llb_Local ''ctx''
                 [IncludePatterns [''./*''], SharedKeyHint ''d7b35a2e821df596ce8183d25ce546406e068d7f''],
              localName = [], localOpts = []\<rparr> = []
   \<and> WithInclude (\<lambda>path. 7) init
        \<lparr>st = llb_Local ''ctx''
                 [IncludePatterns [''./*''], SharedKeyHint ''d7b35a2e821df596ce8183d25ce546406e068d7f''],
              localName = [], localOpts = []\<rparr> [''README.md'']
      = (Inr \<lparr>st = llb_Local ''ctx''
                 [IncludePatterns [''./*''], SharedKeyHint ''d7b35a2e821df596ce8183d25ce546406e068d7f''],
              localName = [], localOpts = []\<rparr>, init)"
proof -
  have a: "localName (Local ''ctx'' []) \<noteq> []"
    by (simp add: Local_def)
  have m: "WithInclude (\<lambda>path. 0) init (Local ''ctx'' []) [''.'']
      = (Inr \<lparr>st = llb_Local ''ctx''
                 [IncludePatterns [''./*''], SharedKeyHint ''d7b35a2e821df596ce8183d25ce546406e068d7f''],
              localName = [], localOpts = []\<rparr>,
         init(''d7b35a2e821df596ce8183d25ce546406e068d7f'' \<mapsto>
           \<lparr>st = llb_Local ''ctx''
                 [IncludePatterns [''./*''], SharedKeyHint ''d7b35a2e821df596ce8183d25ce546406e068d7f''],
              localName = [], localOpts = []\<rparr>))"
    using WithInclude_miss [where s = "Local ''ctx'' []" and incl = "[''.'']" and incl' = "[''./*'']"
        and c = init and probe = "\<lambda>path. 0"]
    by (simp add: Local_def fixIncl_dot key_ctx_dotstar init_def)
  from filtered_state_is_final [OF reachable_init a m, where probe' = "\<lambda>path. 7" and c'' = init and Q = "[''README.md'']"]
  show ?thesis
    using a m by (simp add: reachable_init)
qed

end
